theory Spec2Isabelle
  imports Main
begin

section \<open>Values, row objects and ordered maps\<close>

text \<open>
  The runtime works on JavaScript values. The development covers the primitive
  values \<open>undefined\<close>, \<open>null\<close>, booleans, integral numbers and
  strings; on these \<open>===\<close> and the key equality of \<open>Map\<close> are
  structural equality, and \<open>structuredClone\<close> is the identity.
\<close>

datatype val = VUndefined | VNull | VBool bool | VNum int | VStr string

text \<open>
  A row (\<open>Record<string, any>\<close>) is the list of its own properties in
  insertion order. A property that is present with value \<open>undefined\<close> is
  different from an absent one for \<open>hasOwnProperty\<close>, and equal to it
  for a property read.
\<close>

type_synonym row = "(string \<times> val) list"

definition hasOwnProperty :: "row \<Rightarrow> string \<Rightarrow> bool" where
  "hasOwnProperty r k = (k \<in> fst ` set r)"

definition obj_get :: "row \<Rightarrow> string \<Rightarrow> val" where
  "obj_get r k = (case map_of r k of None \<Rightarrow> VUndefined | Some v \<Rightarrow> v)"

fun obj_set :: "row \<Rightarrow> string \<Rightarrow> val \<Rightarrow> row" where
  "obj_set [] k v = [(k, v)]"
| "obj_set ((k', v') # r) k v = (if k' = k then (k, v) # r else (k', v') # obj_set r k v)"

text \<open>Object spread \<open>{ ...a, ...b }\<close>: the properties of \<open>b\<close> are assigned in order.\<close>

definition spread :: "row \<Rightarrow> row \<Rightarrow> row" where
  "spread a b = foldl (\<lambda>r (k, v). obj_set r k v) a b"

definition cloneRow :: "'a \<Rightarrow> 'a" where
  "cloneRow x = x"

text \<open>
  A JavaScript \<open>Map\<close> whose iteration order matters (a table's rows) is the
  list of its entries in insertion order: \<open>set\<close> on a present key keeps the
  entry's place, on a new key appends.
\<close>

type_synonym store = "(val \<times> row) list"

definition map_has :: "store \<Rightarrow> val \<Rightarrow> bool" where
  "map_has m k = (k \<in> fst ` set m)"

fun map_set :: "store \<Rightarrow> val \<Rightarrow> row \<Rightarrow> store" where
  "map_set [] k v = [(k, v)]"
| "map_set ((k', v') # m) k v = (if k' = k then (k, v) # m else (k', v') # map_set m k v)"

definition map_delete :: "store \<Rightarrow> val \<Rightarrow> store" where
  "map_delete m k = filter (\<lambda>e. fst e \<noteq> k) m"

definition map_values :: "store \<Rightarrow> row list" where
  "map_values m = map snd m"

section \<open>Schema model (ast.ts)\<close>

datatype DeleteRule = Restrict | Cascade

record ColumnConstraintRuntime =
  notNull :: bool
  primaryKey :: bool
  unique :: bool
  identity :: bool
  hasDefault :: bool

record ForeignKeyMeta =
  fk_tableName :: string
  fk_columnName :: string
  fk_onDelete :: DeleteRule

text \<open>
  \<open>defaultValue\<close> is \<open>VUndefined\<close> when the column declares no literal
  default; the producers are \<open>None\<close> when absent and pure functions otherwise.
\<close>

record ColumnDef =
  cname :: string
  constraints :: ColumnConstraintRuntime
  defaultValue :: val
  defaultFn :: "(unit \<Rightarrow> val) option"
  onUpdateFn :: "(val \<Rightarrow> val) option"
  foreignKey :: "ForeignKeyMeta option"

record IndexComputedConfig =
  field :: string
  expression :: "row \<Rightarrow> val"

record IndexDef =
  iname :: string
  iunique :: bool
  sourceColumns :: "string list"
  computed :: "IndexComputedConfig option"

text \<open>\<open>columns\<close> is \<open>Object.values(table.columns)\<close>, in declaration order.\<close>

record TableDef =
  tname :: string
  columns :: "ColumnDef list"
  indexes :: "IndexDef list"

text \<open>\<open>tables\<close> lists the entries of the schema's table record: alias and table.\<close>

record SchemaDef =
  sname :: string
  version :: nat
  namespace :: string
  tables :: "(string \<times> TableDef) list"

text \<open>
  A table object also has the optional field \<open>schema\<close>, which \<open>schema()\<close>
  points back to the schema the table was declared in. The tables listed inside a
  schema value are written without the pointer (it would be the schema itself); a
  table handed to the runtime carries it.
\<close>

record AnyTable = TableDef +
  tschema :: "SchemaDef option"

datatype error =
    MustDeclarePrimaryKey string
  | MissingPrimaryKey string
  | PrimaryKeyViolation string string
  | NotNullable string string
  | ForeignKeyViolation string string string string
  | DeleteRestricted string string
  | EmptyTransaction
  | UndeclaredTable string
  | TypeError
  | UserError string

section \<open>Table construction (builders.ts)\<close>

record ColumnBuilderRuntime =
  b_constraints :: ColumnConstraintRuntime
  b_defaultValue :: val
  b_defaultFn :: "(unit \<Rightarrow> val) option"
  b_onUpdateFn :: "(val \<Rightarrow> val) option"

definition build :: "ColumnBuilderRuntime \<Rightarrow> string \<Rightarrow> ColumnDef" where
  "build b columnName =
     \<lparr> cname = columnName, constraints = b_constraints b,
       defaultValue = b_defaultValue b, defaultFn = b_defaultFn b,
       onUpdateFn = b_onUpdateFn b, foreignKey = None \<rparr>"


definition primaryKeyColumn :: "'a TableDef_scheme \<Rightarrow> error + ColumnDef" where
  "primaryKeyColumn t =
     (case find (\<lambda>col. primaryKey (constraints col)) (columns t) of
        None \<Rightarrow> Inl (MissingPrimaryKey (tname t))
      | Some pk \<Rightarrow> Inr pk)"

definition storeName :: "SchemaDef \<Rightarrow> 'a TableDef_scheme \<Rightarrow> string" where
  "storeName sch t = namespace sch @ ''__'' @ tname t"


section \<open>Query evaluation\<close>

datatype OrderBy = ByColumn string | BySelector "row \<Rightarrow> val"

datatype Order = Asc | Desc

record QueryOptions =
  q_where :: "(row \<Rightarrow> bool) option"
  q_orderBy :: "OrderBy option"
  q_order :: "Order option"
  q_limit :: "int option"
  q_offset :: "int option"

text \<open>
  The relational operator \<open>>\<close>: two strings are compared as sequences of
  character codes, anything else as numbers, and a comparison with \<open>NaN\<close> is
  false. A string converts to a number here when it is empty or an optionally
  signed run of decimal digits; every other string converts to \<open>NaN\<close>
  (fractional, exponent and radix spellings have no counterpart among the
  integral numbers of this development).
\<close>

fun str_less :: "string \<Rightarrow> string \<Rightarrow> bool" where
  "str_less [] [] = False"
| "str_less [] (y # ys) = True"
| "str_less (x # xs) [] = False"
| "str_less (x # xs) (y # ys) =
     ((of_char x :: nat) < of_char y \<or> (x = y \<and> str_less xs ys))"

definition digit_val :: "char \<Rightarrow> nat option" where
  "digit_val c = (let n = (of_char c :: nat) in if 48 \<le> n \<and> n \<le> 57 then Some (n - 48) else None)"

fun digits_to_nat :: "nat \<Rightarrow> string \<Rightarrow> nat option" where
  "digits_to_nat acc [] = Some acc"
| "digits_to_nat acc (c # cs) =
     (case digit_val c of None \<Rightarrow> None | Some d \<Rightarrow> digits_to_nat (10 * acc + d) cs)"

definition string_to_number :: "string \<Rightarrow> int option" where
  "string_to_number s =
     (case s of
        [] \<Rightarrow> Some 0
      | c # cs \<Rightarrow>
          if c = CHR ''-'' \<and> cs \<noteq> [] then map_option (\<lambda>n. - int n) (digits_to_nat 0 cs)
          else if c = CHR ''+'' \<and> cs \<noteq> [] then map_option int (digits_to_nat 0 cs)
          else map_option int (digits_to_nat 0 s))"

fun toNumber :: "val \<Rightarrow> int option" where
  "toNumber VUndefined = None"
| "toNumber VNull = Some 0"
| "toNumber (VBool b) = Some (if b then 1 else 0)"
| "toNumber (VNum n) = Some n"
| "toNumber (VStr s) = string_to_number s"

fun js_gt :: "val \<Rightarrow> val \<Rightarrow> bool" where
  "js_gt (VStr a) (VStr b) = str_less b a"
| "js_gt a b = (case (toNumber a, toNumber b) of (Some x, Some y) \<Rightarrow> y < x | _ \<Rightarrow> False)"

text \<open>
  \<open>Array.prototype.sort\<close> is a stable sort directed by the sign of the
  comparator: an element moves behind another one only when the comparator says it
  is greater. The sort is written as insertion from the right, which gives the
  stable order for every comparator that is consistent.
\<close>

fun js_insert :: "('a \<Rightarrow> 'a \<Rightarrow> int) \<Rightarrow> 'a \<Rightarrow> 'a list \<Rightarrow> 'a list" where
  "js_insert cmp x [] = [x]"
| "js_insert cmp x (y # ys) = (if cmp x y > 0 then y # js_insert cmp x ys else x # y # ys)"

definition js_sort :: "('a \<Rightarrow> 'a \<Rightarrow> int) \<Rightarrow> 'a list \<Rightarrow> 'a list" where
  "js_sort cmp xs = foldr (js_insert cmp) xs []"

text \<open>\<open>Array.prototype.slice(start, end)\<close> on integral arguments.\<close>

definition js_slice :: "'a list \<Rightarrow> int \<Rightarrow> int \<Rightarrow> 'a list" where
  "js_slice xs start fin =
     (let len = int (length xs);
          k = (if start < 0 then max (len + start) 0 else min start len);
          final = (if fin < 0 then max (len + fin) 0 else min fin len)
      in take (nat (final - k)) (drop (nat k) xs))"

definition compareKeys :: "val \<Rightarrow> val \<Rightarrow> int" where
  "compareKeys av bv = (if av = bv then 0 else if js_gt av bv then 1 else - 1)"

fun selector_of :: "OrderBy \<Rightarrow> row \<Rightarrow> val" where
  "selector_of (BySelector f) = f"
| "selector_of (ByColumn c) = (\<lambda>r. obj_get r c)"

text \<open>An \<open>orderBy\<close> that is the empty column name is falsy and is ignored.\<close>

fun orderBy_truthy :: "OrderBy \<Rightarrow> bool" where
  "orderBy_truthy (BySelector f) = True"
| "orderBy_truthy (ByColumn c) = (c \<noteq> [])"

definition applyQueryOptions :: "row list \<Rightarrow> QueryOptions option \<Rightarrow> row list" where
  "applyQueryOptions rows options =
     (case options of
        None \<Rightarrow> rows
      | Some opts \<Rightarrow>
          (let result1 = (case q_where opts of None \<Rightarrow> rows | Some w \<Rightarrow> filter w rows);
               result2 =
                 (case q_orderBy opts of
                    None \<Rightarrow> result1
                  | Some ob \<Rightarrow>
                      if \<not> orderBy_truthy ob then result1
                      else
                        (let selector = selector_of ob;
                             sorted = js_sort (\<lambda>a b. compareKeys (selector a) (selector b)) result1
                         in if q_order opts = Some Desc then rev sorted else sorted));
               offset = (case q_offset opts of None \<Rightarrow> 0 | Some n \<Rightarrow> n);
               limit = (case q_limit opts of None \<Rightarrow> int (length result2) | Some n \<Rightarrow> n)
           in js_slice result2 offset (offset + limit)))"


section \<open>Normalization pipeline\<close>

text \<open>
  The context's two operations read and write the state of the backend that made
  the context; the state is passed through them.
\<close>

record 's NormalizationContext =
  allocateIdentity :: "AnyTable \<Rightarrow> ColumnDef \<Rightarrow> 's \<Rightarrow> (error + val) \<times> 's"
  ensureForeignKey ::
    "AnyTable \<Rightarrow> ColumnDef \<Rightarrow> TableDef \<Rightarrow> ColumnDef \<Rightarrow> val \<Rightarrow> 's \<Rightarrow> (error + unit) \<times> 's"

text \<open>
  The loop of \<open>ensureForeignKeys\<close> over the table's columns. \<open>schema\<close> is the
  schema the table points back to; the target table is looked up in it under the
  name recorded in the foreign-key metadata.
\<close>

fun ensureForeignKeys_loop ::
  "'s NormalizationContext \<Rightarrow> AnyTable \<Rightarrow> SchemaDef \<Rightarrow> ColumnDef list \<Rightarrow> row \<Rightarrow> 's
     \<Rightarrow> (error + unit) \<times> 's" where
  "ensureForeignKeys_loop ctx t schema [] r s = (Inr (), s)"
| "ensureForeignKeys_loop ctx t schema (column # rest) r s =
     (case foreignKey column of
        None \<Rightarrow> ensureForeignKeys_loop ctx t schema rest r s
      | Some fk \<Rightarrow>
          (let value = obj_get r (cname column) in
           if value = VUndefined \<or> value = VNull
           then ensureForeignKeys_loop ctx t schema rest r s
           else
             (case map_of (tables schema) (fk_tableName fk) of
                None \<Rightarrow> ensureForeignKeys_loop ctx t schema rest r s
              | Some targetTable \<Rightarrow>
                  (case find (\<lambda>c. cname c = fk_columnName fk) (columns targetTable) of
                     None \<Rightarrow> ensureForeignKeys_loop ctx t schema rest r s
                   | Some targetColumn \<Rightarrow>
                       (case ensureForeignKey ctx t column targetTable targetColumn value s of
                          (Inl e, s') \<Rightarrow> (Inl e, s')
                        | (Inr u, s') \<Rightarrow> ensureForeignKeys_loop ctx t schema rest r s')))))"

definition ensureForeignKeys ::
  "AnyTable \<Rightarrow> row \<Rightarrow> 's NormalizationContext \<Rightarrow> 's \<Rightarrow> (error + unit) \<times> 's" where
  "ensureForeignKeys t r ctx s =
     (case tschema t of
        None \<Rightarrow> (Inr (), s)
      | Some schema \<Rightarrow> ensureForeignKeys_loop ctx t schema (columns t) r s)"

text \<open>
  The first half of the body of the insert loop: the value resolved for one
  column, from the row, the identity sequence or the column's defaults.
\<close>

definition resolveInsertValue ::
  "'s NormalizationContext \<Rightarrow> AnyTable \<Rightarrow> ColumnDef \<Rightarrow> row \<Rightarrow> 's \<Rightarrow> (error + val) \<times> 's" where
  "resolveInsertValue ctx t column r s =
     (let value = obj_get r (cname column) in
      if value = VUndefined then
        (if identity (constraints column) then allocateIdentity ctx t column s
         else
           (case defaultFn column of
              Some f \<Rightarrow> (Inr (f ()), s)
            | None \<Rightarrow>
                if defaultValue column \<noteq> VUndefined
                then (Inr (cloneRow (defaultValue column)), s)
                else (Inr value, s)))
      else (Inr value, s))"

fun normalizeInsert_loop ::
  "'s NormalizationContext \<Rightarrow> AnyTable \<Rightarrow> ColumnDef list \<Rightarrow> row \<Rightarrow> 's \<Rightarrow> (error + row) \<times> 's" where
  "normalizeInsert_loop ctx t [] r s = (Inr r, s)"
| "normalizeInsert_loop ctx t (column # rest) r s =
     (case resolveInsertValue ctx t column r s of
        (Inl e, s') \<Rightarrow> (Inl e, s')
      | (Inr value, s') \<Rightarrow>
          if (value = VUndefined \<or> value = VNull) \<and> notNull (constraints column)
          then (Inl (NotNullable (tname t) (cname column)), s')
          else normalizeInsert_loop ctx t rest (obj_set r (cname column) value) s')"

definition normalizeInsertRow ::
  "AnyTable \<Rightarrow> row \<Rightarrow> 's NormalizationContext \<Rightarrow> 's \<Rightarrow> (error + row) \<times> 's" where
  "normalizeInsertRow t input ctx s =
     (case normalizeInsert_loop ctx t (columns t) (spread [] input) s of
        (Inl e, s') \<Rightarrow> (Inl e, s')
      | (Inr r, s') \<Rightarrow>
          (case ensureForeignKeys t r ctx s' of
             (Inl e, s'') \<Rightarrow> (Inl e, s'')
           | (Inr u, s'') \<Rightarrow> (Inr r, s'')))"

fun normalizeUpdate_loop ::
  "AnyTable \<Rightarrow> row \<Rightarrow> row \<Rightarrow> ColumnDef list \<Rightarrow> row \<Rightarrow> error + row" where
  "normalizeUpdate_loop t existing patch [] r = Inr r"
| "normalizeUpdate_loop t existing patch (column # rest) r =
     (let userProvided = hasOwnProperty patch (cname column);
          value =
            (if \<not> userProvided
             then (case onUpdateFn column of
                     Some f \<Rightarrow> f (obj_get existing (cname column))
                   | None \<Rightarrow> obj_get r (cname column))
             else obj_get r (cname column))
      in if value = VUndefined \<and> notNull (constraints column)
         then Inl (NotNullable (tname t) (cname column))
         else normalizeUpdate_loop t existing patch rest (obj_set r (cname column) value))"

definition normalizeUpdateRow ::
  "AnyTable \<Rightarrow> row \<Rightarrow> row \<Rightarrow> 's NormalizationContext \<Rightarrow> 's \<Rightarrow> (error + row) \<times> 's" where
  "normalizeUpdateRow t existing patch ctx s =
     (case normalizeUpdate_loop t existing patch (columns t) (spread existing patch) of
        Inl e \<Rightarrow> (Inl e, s)
      | Inr r \<Rightarrow>
          (case ensureForeignKeys t r ctx s of
             (Inl e, s') \<Rightarrow> (Inl e, s')
           | (Inr u, s') \<Rightarrow> (Inr r, s')))"

definition applyComputedFields :: "AnyTable \<Rightarrow> row \<Rightarrow> row" where
  "applyComputedFields t r =
     foldl (\<lambda>acc idx. case computed idx of
                         None \<Rightarrow> acc
                       | Some c \<Rightarrow> obj_set acc (field c) (expression c acc))
       r (indexes t)"

section \<open>Reverse dependency map\<close>

record ForeignReference =
  ref_table :: TableDef
  ref_column :: ColumnDef

definition buildReferenceMap :: "SchemaDef \<Rightarrow> string \<Rightarrow> ForeignReference list option" where
  "buildReferenceMap schema =
     foldl (\<lambda>m t.
        foldl (\<lambda>m column.
           case foreignKey column of
             None \<Rightarrow> m
           | Some fk \<Rightarrow>
               (let collection = (case m (fk_tableName fk) of None \<Rightarrow> [] | Some c \<Rightarrow> c)
                in m(fk_tableName fk \<mapsto> collection @ [\<lparr> ref_table = t, ref_column = column \<rparr>])))
          m (columns t))
       Map.empty (map snd (tables schema))"


section \<open>Memory backend\<close>

text \<open>
  The adapter's mutable state: the row map of every store and the identity
  counters, both keyed by storage name. The schema and the reverse dependency map
  computed from it never change and are passed alongside.
\<close>

record mem_state =
  stores :: "string \<Rightarrow> store option"
  sequences :: "string \<Rightarrow> nat option"

definition MemoryAdapter :: "SchemaDef \<Rightarrow> mem_state" where
  "MemoryAdapter schema =
     \<lparr> stores = foldl (\<lambda>m t. m(storeName schema t \<mapsto> [])) Map.empty (map snd (tables schema)),
       sequences = Map.empty \<rparr>"

text \<open>\<open>this.sequences.get(name) ?? 0\<close>\<close>

definition seq_current :: "mem_state \<Rightarrow> string \<Rightarrow> nat" where
  "seq_current s name = (case sequences s name of None \<Rightarrow> 0 | Some n \<Rightarrow> n)"

definition getStore :: "SchemaDef \<Rightarrow> 'a TableDef_scheme \<Rightarrow> mem_state \<Rightarrow> store option" where
  "getStore schema t s = stores s (storeName schema t)"

definition makeContext :: "SchemaDef \<Rightarrow> mem_state NormalizationContext" where
  "makeContext schema =
     \<lparr> allocateIdentity = (\<lambda>t column s.
          let name = storeName schema t;
              current = seq_current s name;
              next = current + 1
          in (Inr (VNum (int next)), s\<lparr>sequences := (sequences s)(name \<mapsto> next)\<rparr>)),
       ensureForeignKey = (\<lambda>sourceTable sourceColumn targetTable targetColumn value s.
          if value = VUndefined \<or> value = VNull then (Inr (), s)
          else
            (case getStore schema targetTable s of
               None \<Rightarrow> (Inl TypeError, s)
             | Some st \<Rightarrow>
                 if \<not> map_has st value
                 then (Inl (ForeignKeyViolation (tname sourceTable) (cname sourceColumn)
                              (tname targetTable) (cname targetColumn)), s)
                 else (Inr (), s))) \<rparr>"

datatype insert_values = One row | Many "row list"

fun insertRows_loop ::
  "SchemaDef \<Rightarrow> AnyTable \<Rightarrow> row list \<Rightarrow> row list \<Rightarrow> mem_state \<Rightarrow> (error + row list) \<times> mem_state" where
  "insertRows_loop schema t [] results s = (Inr results, s)"
| "insertRows_loop schema t (value # rest) results s =
     (case normalizeInsertRow t value (makeContext schema) s of
        (Inl e, s1) \<Rightarrow> (Inl e, s1)
      | (Inr normalized0, s1) \<Rightarrow>
          (let normalized = applyComputedFields t normalized0 in
           case primaryKeyColumn t of
             Inl e \<Rightarrow> (Inl e, s1)
           | Inr pkc \<Rightarrow>
               (let pk = cname pkc; key = obj_get normalized pk in
                case getStore schema t s1 of
                  None \<Rightarrow> (Inl TypeError, s1)
                | Some st \<Rightarrow>
                    if map_has st key then (Inl (PrimaryKeyViolation (tname t) pk), s1)
                    else insertRows_loop schema t rest (results @ [cloneRow normalized])
                           (s1\<lparr>stores := (stores s1)(storeName schema t \<mapsto>
                                            map_set st key (cloneRow normalized))\<rparr>))))"

definition insertRows ::
  "SchemaDef \<Rightarrow> AnyTable \<Rightarrow> insert_values \<Rightarrow> mem_state \<Rightarrow> (error + row list) \<times> mem_state" where
  "insertRows schema t vals s =
     (let list = (case vals of Many l \<Rightarrow> l | One v \<Rightarrow> [v])
      in insertRows_loop schema t list [] s)"

definition selectRows ::
  "SchemaDef \<Rightarrow> AnyTable \<Rightarrow> QueryOptions option \<Rightarrow> mem_state \<Rightarrow> (error + row list) \<times> mem_state" where
  "selectRows schema t options s =
     (case getStore schema t s of
        None \<Rightarrow> (Inl TypeError, s)
      | Some st \<Rightarrow> (Inr (applyQueryOptions (map cloneRow (map_values st)) options), s))"

text \<open>
  The loops of \<open>updateRows\<close> and \<open>deleteRows\<close> walk the entries of the
  table's map; \<open>st\<close> is that map as the loop has changed it so far. An entry
  is changed or removed only when the loop is at it, so the walk over the entries
  found at the start visits what the live iteration visits.
\<close>

fun updateRows_loop ::
  "SchemaDef \<Rightarrow> AnyTable \<Rightarrow> (row \<Rightarrow> bool) \<Rightarrow> row \<Rightarrow> (val \<times> row) list \<Rightarrow> store \<Rightarrow> nat
     \<Rightarrow> mem_state \<Rightarrow> (error + nat) \<times> mem_state" where
  "updateRows_loop schema t wh patch [] st updated s = (Inr updated, s)"
| "updateRows_loop schema t wh patch ((key, r) # rest) st updated s =
     (if \<not> wh r then updateRows_loop schema t wh patch rest st updated s
      else
        (case normalizeUpdateRow t r patch (makeContext schema) s of
           (Inl e, s1) \<Rightarrow> (Inl e, s1)
         | (Inr nextRow0, s1) \<Rightarrow>
             (let nextRow = applyComputedFields t nextRow0;
                  st' = map_set st key (cloneRow nextRow)
              in updateRows_loop schema t wh patch rest st' (updated + 1)
                   (s1\<lparr>stores := (stores s1)(storeName schema t \<mapsto> st')\<rparr>))))"

definition updateRows ::
  "SchemaDef \<Rightarrow> AnyTable \<Rightarrow> (row \<Rightarrow> bool) \<Rightarrow> row \<Rightarrow> mem_state \<Rightarrow> (error + nat) \<times> mem_state" where
  "updateRows schema t wh patch s =
     (case getStore schema t s of
        None \<Rightarrow> (Inl TypeError, s)
      | Some st \<Rightarrow> updateRows_loop schema t wh patch st st 0 s)"

fun scan_dependent :: "ForeignReference \<Rightarrow> val \<Rightarrow> row list \<Rightarrow> error option" where
  "scan_dependent ref key [] = None"
| "scan_dependent ref key (r # rest) =
     (if obj_get r (cname (ref_column ref)) = key
      then Some (DeleteRestricted (tname (ref_table ref)) (cname (ref_column ref)))
      else scan_dependent ref key rest)"

fun assertRestrictDeleteMemory ::
  "ForeignReference list \<Rightarrow> val \<Rightarrow> SchemaDef \<Rightarrow> (string \<Rightarrow> store option) \<Rightarrow> error option" where
  "assertRestrictDeleteMemory [] key schema sts = None"
| "assertRestrictDeleteMemory (ref # rest) key schema sts =
     (case sts (storeName schema (ref_table ref)) of
        None \<Rightarrow> assertRestrictDeleteMemory rest key schema sts
      | Some st \<Rightarrow>
          (case scan_dependent ref key (map_values st) of
             Some e \<Rightarrow> Some e
           | None \<Rightarrow> assertRestrictDeleteMemory rest key schema sts))"

fun deleteRows_loop ::
  "SchemaDef \<Rightarrow> AnyTable \<Rightarrow> (row \<Rightarrow> bool) \<Rightarrow> ForeignReference list \<Rightarrow> (val \<times> row) list
     \<Rightarrow> store \<Rightarrow> nat \<Rightarrow> mem_state \<Rightarrow> (error + nat) \<times> mem_state" where
  "deleteRows_loop schema t wh dependents [] st deleted s = (Inr deleted, s)"
| "deleteRows_loop schema t wh dependents ((key, r) # rest) st deleted s =
     (if \<not> wh r then deleteRows_loop schema t wh dependents rest st deleted s
      else
        (case primaryKeyColumn t of
           Inl e \<Rightarrow> (Inl e, s)
         | Inr pkc \<Rightarrow>
             (case assertRestrictDeleteMemory dependents (obj_get r (cname pkc)) schema (stores s) of
                Some e \<Rightarrow> (Inl e, s)
              | None \<Rightarrow>
                  (let st' = map_delete st key
                   in deleteRows_loop schema t wh dependents rest st' (deleted + 1)
                        (s\<lparr>stores := (stores s)(storeName schema t \<mapsto> st')\<rparr>)))))"

definition deleteRows ::
  "SchemaDef \<Rightarrow> AnyTable \<Rightarrow> (row \<Rightarrow> bool) \<Rightarrow> mem_state \<Rightarrow> (error + nat) \<times> mem_state" where
  "deleteRows schema t wh s =
     (case getStore schema t s of
        None \<Rightarrow> (Inl TypeError, s)
      | Some st \<Rightarrow>
          (let dependents = (case buildReferenceMap schema (tname t) of None \<Rightarrow> [] | Some d \<Rightarrow> d)
           in deleteRows_loop schema t wh dependents st st 0 s))"


section \<open>Sessions and transactions\<close>

text \<open>
  A session function is a computation that may call the four verbs of the session
  any number of times, continue with what each call resolved or rejected with, and
  at last resolve with a result or reject with an error.
\<close>

datatype session_call =
    CallInsert AnyTable insert_values
  | CallSelect AnyTable "QueryOptions option"
  | CallUpdate AnyTable "row \<Rightarrow> bool" row
  | CallDelete AnyTable "row \<Rightarrow> bool"

datatype reply = Rows "row list" | Count nat

datatype 'a session_fn =
    Resolve 'a
  | Reject error
  | Await session_call "error + reply \<Rightarrow> 'a session_fn"

definition map_reply :: "('b \<Rightarrow> reply) \<Rightarrow> (error + 'b) \<times> mem_state \<Rightarrow> (error + reply) \<times> mem_state" where
  "map_reply f p = (case p of (Inl e, s) \<Rightarrow> (Inl e, s) | (Inr x, s) \<Rightarrow> (Inr (f x), s))"

text \<open>\<open>createTransactionSession\<close> of the memory adapter: each verb is the adapter's own.\<close>

fun createTransactionSession ::
  "SchemaDef \<Rightarrow> session_call \<Rightarrow> mem_state \<Rightarrow> (error + reply) \<times> mem_state" where
  "createTransactionSession schema (CallInsert t vals) s = map_reply Rows (insertRows schema t vals s)"
| "createTransactionSession schema (CallSelect t options) s = map_reply Rows (selectRows schema t options s)"
| "createTransactionSession schema (CallUpdate t wh patch) s = map_reply Count (updateRows schema t wh patch s)"
| "createTransactionSession schema (CallDelete t wh) s = map_reply Count (deleteRows schema t wh s)"

primrec run_session ::
  "(session_call \<Rightarrow> mem_state \<Rightarrow> (error + reply) \<times> mem_state) \<Rightarrow> 'a session_fn \<Rightarrow> mem_state
     \<Rightarrow> (error + 'a) \<times> mem_state" where
  "run_session session (Resolve x) = (\<lambda>s. (Inr x, s))"
| "run_session session (Reject e) = (\<lambda>s. (Inl e, s))"
| "run_session session (Await c k) =
     (\<lambda>s. case session c s of (r, s') \<Rightarrow> run_session session (k r) s')"

text \<open>
  \<open>MemoryAdapter.transaction\<close>: the catch block puts every snapshotted store
  back under its name and replaces the sequence map by its snapshot.
\<close>

definition transaction ::
  "SchemaDef \<Rightarrow> AnyTable list \<Rightarrow> 'a session_fn \<Rightarrow> mem_state \<Rightarrow> (error + 'a) \<times> mem_state" where
  "transaction schema tbls fn s =
     (let storeSnapshots = stores s;
          seqSnapshot = sequences s;
          session = createTransactionSession schema
      in case run_session session fn s of
           (Inr result, s') \<Rightarrow> (Inr result, s')
         | (Inl e, s') \<Rightarrow>
             (Inl e, s'\<lparr>stores := stores s' ++ storeSnapshots, sequences := seqSnapshot\<rparr>))"


section \<open>Example schema\<close>

text \<open>
  Column builders as in builders.ts, and the two tables of the to-do example:
  \<open>users(id, name, updatedAt)\<close> and \<open>todos(id, title, ownerId)\<close> with
  \<open>ownerId\<close> referencing \<open>users.id\<close>.
\<close>

definition DEFAULT_CONSTRAINTS :: ColumnConstraintRuntime where
  "DEFAULT_CONSTRAINTS =
     \<lparr> notNull = False, primaryKey = False, unique = False, identity = False, hasDefault = False \<rparr>"

definition scalar :: ColumnBuilderRuntime where
  "scalar = \<lparr> b_constraints = DEFAULT_CONSTRAINTS, b_defaultValue = VUndefined,
              b_defaultFn = None, b_onUpdateFn = None \<rparr>"

definition b_notNull :: "ColumnBuilderRuntime \<Rightarrow> ColumnBuilderRuntime" where
  "b_notNull b = b\<lparr> b_constraints := (b_constraints b)\<lparr> notNull := True \<rparr> \<rparr>"

definition b_primaryKey :: "ColumnBuilderRuntime \<Rightarrow> ColumnBuilderRuntime" where
  "b_primaryKey b = b\<lparr> b_constraints := (b_constraints b)\<lparr> primaryKey := True, notNull := True \<rparr> \<rparr>"

definition b_identity :: "ColumnBuilderRuntime \<Rightarrow> ColumnBuilderRuntime" where
  "b_identity b = b\<lparr> b_constraints := (b_constraints b)\<lparr> identity := True, hasDefault := True \<rparr> \<rparr>"

definition b_defaultFn_set :: "(unit \<Rightarrow> val) \<Rightarrow> ColumnBuilderRuntime \<Rightarrow> ColumnBuilderRuntime" where
  "b_defaultFn_set fn b =
     b\<lparr> b_defaultFn := Some fn, b_constraints := (b_constraints b)\<lparr> hasDefault := True \<rparr> \<rparr>"

definition b_onUpdate :: "(val \<Rightarrow> val) \<Rightarrow> ColumnBuilderRuntime \<Rightarrow> ColumnBuilderRuntime" where
  "b_onUpdate fn b = b\<lparr> b_onUpdateFn := Some fn \<rparr>"

definition plus_one :: "val \<Rightarrow> val" where
  "plus_one prev = (case prev of VNum n \<Rightarrow> VNum (n + 1) | _ \<Rightarrow> prev)"

definition users_table :: TableDef where
  "users_table =
     \<lparr> tname = ''users'',
       columns =
         [build (b_identity (b_primaryKey scalar)) ''id'',
          build (b_notNull scalar) ''name'',
          build (b_onUpdate plus_one (b_defaultFn_set (\<lambda>u. VNum 100) scalar)) ''updatedAt''],
       indexes = [] \<rparr>"

definition todos_table :: TableDef where
  "todos_table =
     \<lparr> tname = ''todos'',
       columns =
         [build (b_identity (b_primaryKey scalar)) ''id'',
          build (b_notNull scalar) ''title'',
          (build (b_notNull scalar) ''ownerId'')
            \<lparr> foreignKey := Some \<lparr> fk_tableName = ''users'', fk_columnName = ''id'',
                                    fk_onDelete = Restrict \<rparr> \<rparr>],
       indexes = [] \<rparr>"

definition app :: SchemaDef where
  "app = \<lparr> sname = ''app'', version = 1, namespace = ''app'',
           tables = [(''users'', users_table), (''todos'', todos_table)] \<rparr>"

text \<open>The same tables as the runtime receives them, pointing back to the schema.\<close>

definition attach :: "SchemaDef \<Rightarrow> TableDef \<Rightarrow> AnyTable" where
  "attach schema t =
     \<lparr> tname = tname t, columns = columns t, indexes = indexes t, tschema = Some schema \<rparr>"

definition users :: AnyTable where
  "users = attach app users_table"

definition todos :: AnyTable where
  "todos = attach app todos_table"


text \<open>
  Session functions over the example: insert a user and a to-do for that user, then
  either throw or return.
\<close>

definition insert_pair_then :: "nat session_fn \<Rightarrow> nat session_fn" where
  "insert_pair_then finish =
     Await (CallInsert users (One [(''name'', VStr ''x'')]))
       (\<lambda>r1. Await (CallInsert todos (One [(''title'', VStr ''t''), (''ownerId'', VNum 1)]))
          (\<lambda>r2. finish))"


section \<open>Evaluation of the example\<close>

lemmas example_defs =
  DEFAULT_CONSTRAINTS_def scalar_def b_notNull_def b_primaryKey_def b_identity_def
  b_defaultFn_set_def b_onUpdate_def plus_one_def users_table_def todos_table_def
  users_def todos_def attach_def app_def build_def

lemmas runtime_defs =
  insertRows_def updateRows_def deleteRows_def selectRows_def MemoryAdapter_def
  normalizeInsertRow_def resolveInsertValue_def normalizeUpdateRow_def makeContext_def ensureForeignKeys_def
  applyComputedFields_def primaryKeyColumn_def getStore_def seq_current_def storeName_def map_has_def
  map_delete_def map_values_def cloneRow_def obj_get_def hasOwnProperty_def spread_def
  buildReferenceMap_def map_reply_def Let_def

section \<open>Primary keys at table construction\<close>





section \<open>Not-null on update\<close>

text \<open>
  C3 at a failing input. The user \<open>{id: 1, name: 'x', updatedAt: 100}\<close> is
  updated with the patch \<open>{name: null}\<close>; \<open>name\<close> is a not-null column. The
  update is accepted: normalization returns the row with \<open>name = null\<close>, and
  \<open>updateRows\<close> counts one updated row and stores it.
\<close>

theorem update_accepts_null_in_not_null_column:
  "notNull (constraints (build (b_notNull scalar) ''name''))
   \<and> fst (normalizeUpdateRow users
            [(''id'', VNum 1), (''name'', VStr ''x''), (''updatedAt'', VNum 100)]
            [(''name'', VNull)] (makeContext app) (MemoryAdapter app))
       = Inr [(''id'', VNum 1), (''name'', VNull), (''updatedAt'', VNum 101)]
   \<and> fst (updateRows app users (\<lambda>r. obj_get r ''id'' = VNum 1) [(''name'', VNull)]
            (snd (insertRows app users (One [(''name'', VStr ''x'')]) (MemoryAdapter app))))
       = Inr 1
   \<and> getStore app users
        (snd (updateRows app users (\<lambda>r. obj_get r ''id'' = VNum 1) [(''name'', VNull)]
            (snd (insertRows app users (One [(''name'', VStr ''x'')]) (MemoryAdapter app)))))
       = Some [(VNum 1, [(''name'', VNull), (''id'', VNum 1), (''updatedAt'', VNum 101)])]"
  by (simp add: example_defs runtime_defs)

section \<open>Transactions over an empty table list\<close>



section \<open>What the memory context changes\<close>

lemma allocateIdentity_stores:
  "stores (snd (allocateIdentity (makeContext schema) t c s)) = stores s"
  by (simp add: makeContext_def Let_def)

lemma ensureForeignKey_state:
  "ensureForeignKey (makeContext schema) t c tt tc v s = (u, s') \<Longrightarrow> s' = s"
  by (auto simp: makeContext_def split: option.splits if_splits)

lemma ensureForeignKeys_loop_state_pair:
  "ensureForeignKeys_loop (makeContext schema) t sch cols r s = (u, s') \<Longrightarrow> s' = s"
proof (induction cols arbitrary: s)
  case Nil
  then show ?case by simp
next
  case (Cons column rest)
  show ?case
  proof (cases "foreignKey column")
    case None
    then show ?thesis using Cons by simp
  next
    case (Some fk)
    show ?thesis
      using Cons.prems Some Cons.IH
      by (auto simp: Let_def split: option.splits prod.splits sum.splits if_splits
               dest!: ensureForeignKey_state)
  qed
qed

lemma ensureForeignKeys_loop_state:
  "snd (ensureForeignKeys_loop (makeContext schema) t sch cols r s) = s"
proof (cases "ensureForeignKeys_loop (makeContext schema) t sch cols r s")
  case (Pair u s')
  from ensureForeignKeys_loop_state_pair [OF this] show ?thesis using Pair by simp
qed

lemma ensureForeignKeys_state:
  "snd (ensureForeignKeys t r (makeContext schema) s) = s"
  by (simp add: ensureForeignKeys_def ensureForeignKeys_loop_state split: option.splits)

lemma resolveInsertValue_stores:
  "resolveInsertValue (makeContext schema) t column r s = (res, s') \<Longrightarrow> stores s' = stores s"
  by (auto simp: resolveInsertValue_def makeContext_def Let_def split: if_splits option.splits)

lemma normalizeInsert_loop_stores_pair:
  "normalizeInsert_loop (makeContext schema) t cols r s = (res, s') \<Longrightarrow> stores s' = stores s"
proof (induction cols arbitrary: r s)
  case Nil
  then show ?case by simp
next
  case (Cons column rest)
  obtain v s1 where rv: "resolveInsertValue (makeContext schema) t column r s = (v, s1)"
    by (cases "resolveInsertValue (makeContext schema) t column r s")
  have s1: "stores s1 = stores s" by (rule resolveInsertValue_stores [OF rv])
  show ?case
  proof (cases v)
    case (Inl e)
    then show ?thesis using Cons.prems rv s1 by simp
  next
    case (Inr x)
    show ?thesis
    proof (cases "(x = VUndefined \<or> x = VNull) \<and> notNull (constraints column)")
      case True
      then show ?thesis using Cons.prems rv s1 Inr by auto
    next
      case False
      then have "normalizeInsert_loop (makeContext schema) t rest (obj_set r (cname column) x) s1 = (res, s')"
        using Cons.prems rv Inr by auto
      from Cons.IH [OF this] show ?thesis using s1 by simp
    qed
  qed
qed

lemma normalizeInsert_loop_stores:
  "stores (snd (normalizeInsert_loop (makeContext schema) t cols r s)) = stores s"
proof (cases "normalizeInsert_loop (makeContext schema) t cols r s")
  case (Pair res s')
  from normalizeInsert_loop_stores_pair [OF this] show ?thesis using Pair by simp
qed

lemma normalizeInsertRow_stores:
  "stores (snd (normalizeInsertRow t input (makeContext schema) s)) = stores s"
proof -
  obtain res s1 where l: "normalizeInsert_loop (makeContext schema) t (columns t) (spread [] input) s = (res, s1)"
    by (cases "normalizeInsert_loop (makeContext schema) t (columns t) (spread [] input) s")
  have s1: "stores s1 = stores s"
    using normalizeInsert_loop_stores [of schema t "columns t" "spread [] input" s] l by simp
  show ?thesis
  proof (cases res)
    case (Inl e)
    then show ?thesis using l s1 by (simp add: normalizeInsertRow_def)
  next
    case (Inr r)
    obtain u s2 where f: "ensureForeignKeys t r (makeContext schema) s1 = (u, s2)"
      by (cases "ensureForeignKeys t r (makeContext schema) s1")
    have "s2 = s1" using ensureForeignKeys_state [of t r schema s1] f by simp
    then show ?thesis using l s1 Inr f
      by (cases u) (simp_all add: normalizeInsertRow_def)
  qed
qed

lemma normalizeUpdateRow_state:
  "snd (normalizeUpdateRow t existing patch (makeContext schema) s) = s"
proof (cases "normalizeUpdate_loop t existing patch (columns t) (spread existing patch)")
  case (Inl e)
  then show ?thesis by (simp add: normalizeUpdateRow_def)
next
  case (Inr r)
  obtain u s2 where f: "ensureForeignKeys t r (makeContext schema) s = (u, s2)"
    by (cases "ensureForeignKeys t r (makeContext schema) s")
  have "s2 = s" using ensureForeignKeys_state [of t r schema s] f by simp
  then show ?thesis using Inr f by (cases u) (simp_all add: normalizeUpdateRow_def)
qed

section \<open>The set of stores is fixed\<close>

lemma insertRows_loop_dom:
  "dom (stores (snd (insertRows_loop schema t vs results s))) = dom (stores s)"
proof (induction vs arbitrary: results s)
  case Nil
  then show ?case by simp
next
  case (Cons v rest)
  obtain res s1 where n: "normalizeInsertRow t v (makeContext schema) s = (res, s1)"
    by (cases "normalizeInsertRow t v (makeContext schema) s")
  have s1: "stores s1 = stores s"
    using normalizeInsertRow_stores [of t v schema s] n by simp
  show ?case
  proof (cases res)
    case (Inl e)
    then show ?thesis using n s1 by simp
  next
    case (Inr normalized0)
    show ?thesis
    proof (cases "primaryKeyColumn t")
      case (Inl e)
      then show ?thesis using n s1 Inr by (simp add: Let_def)
    next
      case pk: (Inr pkc)
      show ?thesis
      proof (cases "getStore schema t s1")
        case None
        then show ?thesis using n s1 Inr pk by (simp add: Let_def)
      next
        case (Some st)
        let ?row = "applyComputedFields t normalized0"
        let ?key = "obj_get ?row (cname pkc)"
        show ?thesis
        proof (cases "map_has st ?key")
          case True
          then show ?thesis using n s1 Inr pk Some by (simp add: Let_def)
        next
          case False
          let ?s' = "s1\<lparr>stores := (stores s1)(storeName schema t \<mapsto> map_set st ?key (cloneRow ?row))\<rparr>"
          have "storeName schema t \<in> dom (stores s1)" using Some by (auto simp: getStore_def)
          then have d: "dom (stores ?s') = dom (stores s)" using s1 by auto
          have "dom (stores (snd (insertRows_loop schema t rest (results @ [cloneRow ?row]) ?s')))
                  = dom (stores ?s')"
            by (rule Cons.IH)
          then show ?thesis using n Inr pk Some False d by (simp add: Let_def)
        qed
      qed
    qed
  qed
qed

lemma updateRows_loop_dom:
  "storeName schema t \<in> dom (stores s) \<Longrightarrow>
   dom (stores (snd (updateRows_loop schema t wh patch es st n s))) = dom (stores s)"
proof (induction es arbitrary: st n s)
  case Nil
  then show ?case by simp
next
  case (Cons e rest)
  obtain key r where e: "e = (key, r)" by (cases e)
  show ?case
  proof (cases "wh r")
    case False
    then show ?thesis using Cons e by simp
  next
    case True
    obtain res s1 where u: "normalizeUpdateRow t r patch (makeContext schema) s = (res, s1)"
      by (cases "normalizeUpdateRow t r patch (makeContext schema) s")
    have s1: "s1 = s" using normalizeUpdateRow_state [of t r patch schema s] u by simp
    show ?thesis
    proof (cases res)
      case (Inl err)
      then show ?thesis using e True u s1 by simp
    next
      case (Inr nextRow0)
      let ?st' = "map_set st key (cloneRow (applyComputedFields t nextRow0))"
      let ?s' = "s\<lparr>stores := (stores s)(storeName schema t \<mapsto> ?st')\<rparr>"
      have d: "dom (stores ?s') = dom (stores s)" using Cons.prems by auto
      have "dom (stores (snd (updateRows_loop schema t wh patch rest ?st' (n + 1) ?s'))) = dom (stores ?s')"
        by (rule Cons.IH) auto
      then show ?thesis using e True u s1 Inr d by (simp add: Let_def)
    qed
  qed
qed

lemma deleteRows_loop_dom:
  "storeName schema t \<in> dom (stores s) \<Longrightarrow>
   dom (stores (snd (deleteRows_loop schema t wh deps es st n s))) = dom (stores s)"
proof (induction es arbitrary: st n s)
  case Nil
  then show ?case by simp
next
  case (Cons e rest)
  obtain key r where e: "e = (key, r)" by (cases e)
  show ?case
  proof (cases "wh r")
    case False
    then show ?thesis using Cons e by simp
  next
    case True
    let ?st' = "map_delete st key"
    let ?s' = "s\<lparr>stores := (stores s)(storeName schema t \<mapsto> ?st')\<rparr>"
    have d: "dom (stores ?s') = dom (stores s)" using Cons.prems by auto
    have "dom (stores (snd (deleteRows_loop schema t wh deps rest ?st' (n + 1) ?s'))) = dom (stores ?s')"
      by (rule Cons.IH) auto
    then show ?thesis using e True d
      by (simp add: Let_def split: sum.splits option.splits)
  qed
qed

lemma snd_map_reply: "snd (map_reply f p) = snd p"
  by (cases p) (auto simp: map_reply_def split: sum.splits)

lemma insertRows_dom:
  "dom (stores (snd (insertRows schema t vals s))) = dom (stores s)"
  by (simp add: insertRows_def Let_def insertRows_loop_dom)

lemma selectRows_state: "snd (selectRows schema t options s) = s"
  by (simp add: selectRows_def split: option.splits)

lemma updateRows_dom:
  "dom (stores (snd (updateRows schema t wh patch s))) = dom (stores s)"
proof (cases "getStore schema t s")
  case None
  then show ?thesis by (simp add: updateRows_def)
next
  case (Some st)
  then have "storeName schema t \<in> dom (stores s)" by (auto simp: getStore_def)
  from updateRows_loop_dom [OF this, of wh patch st st 0]
  show ?thesis using Some by (simp add: updateRows_def)
qed

lemma deleteRows_dom:
  "dom (stores (snd (deleteRows schema t wh s))) = dom (stores s)"
proof (cases "getStore schema t s")
  case None
  then show ?thesis by (simp add: deleteRows_def)
next
  case (Some st)
  then have "storeName schema t \<in> dom (stores s)" by (auto simp: getStore_def)
  from deleteRows_loop_dom [OF this]
  show ?thesis using Some by (simp add: deleteRows_def Let_def)
qed

lemma session_call_dom:
  "dom (stores (snd (createTransactionSession schema c s))) = dom (stores s)"
  by (cases c)
     (simp_all add: snd_map_reply insertRows_dom selectRows_state updateRows_dom deleteRows_dom)

lemma run_session_dom:
  "dom (stores (snd (run_session (createTransactionSession schema) fn s))) = dom (stores s)"
proof (induction fn arbitrary: s)
  case (Resolve x)
  then show ?case by simp
next
  case (Reject e)
  then show ?case by simp
next
  case (Await c k)
  obtain r s' where c: "createTransactionSession schema c s = (r, s')"
    by (cases "createTransactionSession schema c s")
  have "dom (stores s') = dom (stores s)" using session_call_dom [of schema c s] c by simp
  moreover have "dom (stores (snd (run_session (createTransactionSession schema) (k r) s'))) = dom (stores s')"
    using Await.IH by blast
  ultimately show ?case using c by simp
qed

lemma restore_snapshot:
  assumes "dom (stores s') = dom (stores s)"
  shows "s'\<lparr>stores := stores s' ++ stores s, sequences := sequences s\<rparr> = (s :: mem_state)"
proof -
  have "stores s' ++ stores s = stores s"
  proof
    fix x
    show "(stores s' ++ stores s) x = stores s x"
    proof (cases "stores s x")
      case None
      then have "x \<notin> dom (stores s')" using assms by (simp add: domIff)
      then have "stores s' x = None" by (simp add: domIff)
      then show ?thesis using None by (simp add: map_add_def)
    next
      case (Some st)
      then show ?thesis by (simp add: map_add_def)
    qed
  qed
  then show ?thesis by simp
qed

text \<open>
  C1. Whatever the tables and whatever the session function does through the
  session: if it rejects with \<open>e\<close>, \<open>transaction\<close> rejects with \<open>e\<close> and
  the adapter's state (every store's row map and the whole sequence map) is the
  state at the call; if it resolves with \<open>x\<close>, \<open>transaction\<close> resolves with
  \<open>x\<close> and keeps the state the session left.
\<close>

theorem transaction_rolls_back_or_returns:
  "(\<forall>e s'. run_session (createTransactionSession schema) fn s = (Inl e, s')
        \<longrightarrow> transaction schema tbls fn s = (Inl e, s))
   \<and> (\<forall>x s'. run_session (createTransactionSession schema) fn s = (Inr x, s')
        \<longrightarrow> transaction schema tbls fn s = (Inr x, s'))"
proof (intro conjI allI impI)
  fix e s'
  assume r: "run_session (createTransactionSession schema) fn s = (Inl e, s')"
  have "dom (stores s') = dom (stores s)"
    using run_session_dom [of schema fn s] r by simp
  from restore_snapshot [OF this] show "transaction schema tbls fn s = (Inl e, s)"
    using r by (simp add: transaction_def Let_def)
next
  fix x s'
  assume "run_session (createTransactionSession schema) fn s = (Inr x, s')"
  then show "transaction schema tbls fn s = (Inr x, s')"
    by (simp add: transaction_def Let_def)
qed

theorem transaction_rolls_back_or_returns_witness:
  "getStore app users (snd (run_session (createTransactionSession app)
       (insert_pair_then (Reject (UserError ''boom''))) (MemoryAdapter app)))
     = Some [(VNum 1, [(''name'', VStr ''x''), (''id'', VNum 1), (''updatedAt'', VNum 100)])]
   \<and> sequences (snd (run_session (createTransactionSession app)
       (insert_pair_then (Reject (UserError ''boom''))) (MemoryAdapter app))) ''app__todos'' = Some 1
   \<and> transaction app [users, todos] (insert_pair_then (Reject (UserError ''boom''))) (MemoryAdapter app)
       = (Inl (UserError ''boom''), MemoryAdapter app)
   \<and> fst (transaction app [users, todos] (insert_pair_then (Resolve 7)) (MemoryAdapter app)) = Inr 7
   \<and> getStore app todos (snd (transaction app [users, todos] (insert_pair_then (Resolve 7)) (MemoryAdapter app)))
       = Some [(VNum 1, [(''title'', VStr ''t''), (''ownerId'', VNum 1), (''id'', VNum 1)])]"
proof -
  let ?run = "\<lambda>fn. run_session (createTransactionSession app) fn (MemoryAdapter app)"
  let ?bad = "insert_pair_then (Reject (UserError ''boom''))"
  let ?good = "insert_pair_then (Resolve 7)"
  have b1: "fst (?run ?bad) = Inl (UserError ''boom'')"
    by (simp add: insert_pair_then_def example_defs runtime_defs)
  have b2: "getStore app users (snd (?run ?bad))
             = Some [(VNum 1, [(''name'', VStr ''x''), (''id'', VNum 1), (''updatedAt'', VNum 100)])]"
    by (simp add: insert_pair_then_def example_defs runtime_defs)
  have b3: "sequences (snd (?run ?bad)) ''app__todos'' = Some 1"
    by (simp add: insert_pair_then_def example_defs runtime_defs)
  have g1: "fst (?run ?good) = Inr 7"
    by (simp add: insert_pair_then_def example_defs runtime_defs)
  have g2: "getStore app todos (snd (?run ?good))
             = Some [(VNum 1, [(''title'', VStr ''t''), (''ownerId'', VNum 1), (''id'', VNum 1)])]"
    by (simp add: insert_pair_then_def example_defs runtime_defs)
  have rb: "?run ?bad = (Inl (UserError ''boom''), snd (?run ?bad))"
    using b1 by (metis prod.collapse)
  have rg: "?run ?good = (Inr 7, snd (?run ?good))"
    using g1 by (metis prod.collapse)
  have tb: "transaction app [users, todos] ?bad (MemoryAdapter app) = (Inl (UserError ''boom''), MemoryAdapter app)"
    using transaction_rolls_back_or_returns [of app ?bad "MemoryAdapter app" "[users, todos]"] rb
    by blast
  have tg: "transaction app [users, todos] ?good (MemoryAdapter app) = (Inr 7, snd (?run ?good))"
    using transaction_rolls_back_or_returns [of app ?good "MemoryAdapter app" "[users, todos]"] rg
    by blast
  show ?thesis using b2 b3 tb tg g2 by simp
qed


section \<open>Row objects\<close>

lemma obj_get_set: "obj_get (obj_set r k v) k' = (if k' = k then v else obj_get r k')"
  by (induction r) (auto simp: obj_get_def)

lemma obj_get_Cons: "obj_get ((k1, v1) # r) k = (if k = k1 then v1 else obj_get r k)"
  by (simp add: obj_get_def)

lemma keys_obj_set: "fst ` set (obj_set r k v) = insert k (fst ` set r)"
proof (induction r)
  case Nil
  show ?case by simp
next
  case (Cons e r)
  obtain k1 v1 where e: "e = (k1, v1)" by (cases e)
  show ?case using Cons e by (cases "k1 = k") (simp_all add: insert_commute)
qed

lemma hasOwnProperty_set:
  "hasOwnProperty (obj_set r k v) k' \<longleftrightarrow> k' = k \<or> hasOwnProperty r k'"
  by (simp add: hasOwnProperty_def keys_obj_set)

lemma hasOwnProperty_Cons:
  "hasOwnProperty ((k1, v1) # r) k \<longleftrightarrow> k = k1 \<or> hasOwnProperty r k"
  by (auto simp: hasOwnProperty_def)

lemma obj_get_absent: "\<not> hasOwnProperty r k \<Longrightarrow> obj_get r k = VUndefined"
  by (induction r) (auto simp: hasOwnProperty_def obj_get_def)

lemma obj_get_spread:
  "distinct (map fst b) \<Longrightarrow>
   obj_get (spread a b) k = (if hasOwnProperty b k then obj_get b k else obj_get a k)"
proof (induction b arbitrary: a)
  case Nil
  then show ?case by (simp add: spread_def hasOwnProperty_def)
next
  case (Cons e b)
  obtain k1 v1 where e: "e = (k1, v1)" by (cases e)
  have d: "distinct (map fst b)" and n: "k1 \<notin> fst ` set b" using Cons.prems e by auto
  have step: "spread a (e # b) = spread (obj_set a k1 v1) b" by (simp add: spread_def e)
  have ih: "obj_get (spread (obj_set a k1 v1) b) k
              = (if hasOwnProperty b k then obj_get b k else obj_get (obj_set a k1 v1) k)"
    by (rule Cons.IH [OF d])
  show ?case
  proof (cases "k = k1")
    case True
    then have "\<not> hasOwnProperty b k" using n by (simp add: hasOwnProperty_def)
    then show ?thesis using True step ih e
      by (simp add: obj_get_set hasOwnProperty_Cons obj_get_Cons)
  next
    case False
    then show ?thesis using step ih e
      by (simp add: obj_get_set hasOwnProperty_Cons obj_get_Cons)
  qed
qed

section \<open>Update normalization\<close>

text \<open>The value the update loop resolves for a column, read off the merged row.\<close>

lemma normalizeUpdate_loop_values:
  assumes "normalizeUpdate_loop t existing patch cols r0 = Inr r"
    and "distinct (map cname cols)"
  shows "(\<forall>k. k \<notin> cname ` set cols \<longrightarrow> obj_get r k = obj_get r0 k)
       \<and> (\<forall>column \<in> set cols.
            obj_get r (cname column) =
              (if hasOwnProperty patch (cname column) then obj_get r0 (cname column)
               else case onUpdateFn column of
                      Some f \<Rightarrow> f (obj_get existing (cname column))
                    | None \<Rightarrow> obj_get r0 (cname column))
            \<and> \<not> (obj_get r (cname column) = VUndefined \<and> notNull (constraints column)))"
  using assms
proof (induction cols arbitrary: r0)
  case Nil
  then show ?case by simp
next
  case (Cons column rest)
  define val0 where "val0 =
     (if \<not> hasOwnProperty patch (cname column)
      then (case onUpdateFn column of
              Some f \<Rightarrow> f (obj_get existing (cname column))
            | None \<Rightarrow> obj_get r0 (cname column))
      else obj_get r0 (cname column))"
  have ok: "\<not> (val0 = VUndefined \<and> notNull (constraints column))"
    and rest: "normalizeUpdate_loop t existing patch rest (obj_set r0 (cname column) val0) = Inr r"
    using Cons.prems(1) by (auto simp: val0_def Let_def split: if_splits)
  have d: "distinct (map cname rest)" and fresh: "cname column \<notin> cname ` set rest"
    using Cons.prems(2) by auto
  have fresh': "\<And>c. c \<in> set rest \<Longrightarrow> cname c \<noteq> cname column"
    using fresh by (metis image_eqI)
  note ih = Cons.IH [OF rest d]
  have here: "obj_get r (cname column) = val0"
    using ih fresh by (simp add: obj_get_set)
  have others: "\<And>c. c \<in> set rest \<Longrightarrow> obj_get (obj_set r0 (cname column) val0) (cname c) = obj_get r0 (cname c)"
    using fresh' by (simp add: obj_get_set)
  show ?case
  proof (intro conjI allI impI ballI)
    fix k assume "k \<notin> cname ` set (column # rest)"
    then show "obj_get r k = obj_get r0 k" using ih by (simp add: obj_get_set)
  next
    fix c assume c: "c \<in> set (column # rest)"
    show "obj_get r (cname c) =
              (if hasOwnProperty patch (cname c) then obj_get r0 (cname c)
               else case onUpdateFn c of
                      Some f \<Rightarrow> f (obj_get existing (cname c))
                    | None \<Rightarrow> obj_get r0 (cname c))"
    proof (cases "c = column")
      case True
      show ?thesis using here unfolding True val0_def by (simp split: option.splits)
    next
      case False
      then have "c \<in> set rest" using c by simp
      then show ?thesis using ih others by (simp split: option.splits)
    qed
  next
    fix c assume c: "c \<in> set (column # rest)"
    show "\<not> (obj_get r (cname c) = VUndefined \<and> notNull (constraints c))"
    proof (cases "c = column")
      case True
      then show ?thesis using here ok by simp
    next
      case False
      then have "c \<in> set rest" using c by simp
      then show ?thesis using ih by simp
    qed
  qed
qed


lemma updateRows_loop_sequences:
  "sequences (snd (updateRows_loop schema t wh patch es st n s)) = sequences s"
proof (induction es arbitrary: st n s)
  case Nil
  then show ?case by simp
next
  case (Cons e rest)
  obtain key r where e: "e = (key, r)" by (cases e)
  show ?case
  proof (cases "wh r")
    case False
    then show ?thesis using Cons e by simp
  next
    case True
    obtain res s1 where u: "normalizeUpdateRow t r patch (makeContext schema) s = (res, s1)"
      by (cases "normalizeUpdateRow t r patch (makeContext schema) s")
    have s1: "s1 = s" using normalizeUpdateRow_state [of t r patch schema s] u by simp
    show ?thesis
    proof (cases res)
      case (Inl err)
      then show ?thesis using e True u s1 by simp
    next
      case (Inr nextRow0)
      let ?st' = "map_set st key (cloneRow (applyComputedFields t nextRow0))"
      let ?s' = "s\<lparr>stores := (stores s)(storeName schema t \<mapsto> ?st')\<rparr>"
      have "sequences (snd (updateRows_loop schema t wh patch rest ?st' (n + 1) ?s')) = sequences ?s'"
        by (rule Cons.IH)
      then show ?thesis using e True u s1 Inr by (simp add: Let_def)
    qed
  qed
qed

lemma updateRows_sequences:
  "sequences (snd (updateRows schema t wh patch s)) = sequences s"
  by (simp add: updateRows_def updateRows_loop_sequences split: option.splits)

text \<open>
  C7. When update normalization succeeds on a table (its column names distinct,
  as those of an object's properties are) with a patch object, every column holds:
  the patch's value when the patch has the column's name as an own property, also
  when that value is \<open>undefined\<close>; otherwise the onUpdate producer applied to
  the column's value before the update, when the column has a producer; otherwise
  the value before the update. Normalizing an update leaves the adapter's state as
  it was, and \<open>updateRows\<close> leaves every identity sequence as it was: no
  identity is allocated on update.
\<close>

theorem onUpdate_runs_unless_patched:
  assumes "normalizeUpdateRow t existing patch (makeContext schema) s = (Inr r, s')"
    and "distinct (map cname (columns t))"
    and "distinct (map fst patch)"
    and "column \<in> set (columns t)"
  shows "obj_get r (cname column) =
           (if hasOwnProperty patch (cname column) then obj_get patch (cname column)
            else case onUpdateFn column of
                   Some f \<Rightarrow> f (obj_get existing (cname column))
                 | None \<Rightarrow> obj_get existing (cname column))
         \<and> s' = s
         \<and> sequences (snd (updateRows schema t wh patch s)) = sequences s"
proof -
  have loop: "normalizeUpdate_loop t existing patch (columns t) (spread existing patch) = Inr r"
    using assms(1)
    by (auto simp: normalizeUpdateRow_def split: sum.splits prod.splits)
  have st: "s' = s"
    using normalizeUpdateRow_state [of t existing patch schema s] assms(1) by simp
  from normalizeUpdate_loop_values [OF loop assms(2)] assms(4)
  have v: "obj_get r (cname column) =
              (if hasOwnProperty patch (cname column) then obj_get (spread existing patch) (cname column)
               else case onUpdateFn column of
                      Some f \<Rightarrow> f (obj_get existing (cname column))
                    | None \<Rightarrow> obj_get (spread existing patch) (cname column))"
    by blast
  have m: "obj_get (spread existing patch) (cname column) =
             (if hasOwnProperty patch (cname column) then obj_get patch (cname column)
              else obj_get existing (cname column))"
    by (rule obj_get_spread [OF assms(3)])
  have "obj_get r (cname column) =
           (if hasOwnProperty patch (cname column) then obj_get patch (cname column)
            else case onUpdateFn column of
                   Some f \<Rightarrow> f (obj_get existing (cname column))
                 | None \<Rightarrow> obj_get existing (cname column))"
    using v m by (simp split: option.splits)
  then show ?thesis using st updateRows_sequences by simp
qed

theorem onUpdate_runs_unless_patched_witness:
  "normalizeUpdateRow users [(''id'', VNum 1), (''name'', VStr ''x''), (''updatedAt'', VNum 100)]
      [(''name'', VStr ''q'')] (makeContext app) (MemoryAdapter app)
     = (Inr [(''id'', VNum 1), (''name'', VStr ''q''), (''updatedAt'', VNum 101)], MemoryAdapter app)
   \<and> normalizeUpdateRow users [(''id'', VNum 1), (''name'', VStr ''x''), (''updatedAt'', VNum 100)]
      [(''updatedAt'', VNum 555)] (makeContext app) (MemoryAdapter app)
     = (Inr [(''id'', VNum 1), (''name'', VStr ''x''), (''updatedAt'', VNum 555)], MemoryAdapter app)
   \<and> normalizeUpdateRow users [(''id'', VNum 1), (''name'', VStr ''x''), (''updatedAt'', VNum 100)]
      [(''updatedAt'', VUndefined)] (makeContext app) (MemoryAdapter app)
     = (Inr [(''id'', VNum 1), (''name'', VStr ''x''), (''updatedAt'', VUndefined)], MemoryAdapter app)
   \<and> obj_get [(''id'', VNum 1), (''name'', VStr ''q''), (''updatedAt'', VNum 101)] ''updatedAt''
       = plus_one (VNum 100)
   \<and> obj_get [(''id'', VNum 1), (''name'', VStr ''x''), (''updatedAt'', VNum 555)] ''updatedAt''
       = VNum 555
   \<and> obj_get [(''id'', VNum 1), (''name'', VStr ''x''), (''updatedAt'', VUndefined)] ''updatedAt''
       = VUndefined"
proof -
  let ?e = "[(''id'', VNum 1), (''name'', VStr ''x''), (''updatedAt'', VNum 100)]"
  let ?c = "build (b_onUpdate plus_one (b_defaultFn_set (\<lambda>u. VNum 100) scalar)) ''updatedAt''"
  have c: "?c \<in> set (columns users)" by (simp add: example_defs)
  have d: "distinct (map cname (columns users))" by (simp add: example_defs)
  have f: "onUpdateFn ?c = Some plus_one" by (simp add: example_defs)
  have n: "cname ?c = ''updatedAt''" by (simp add: example_defs)
  have r1: "normalizeUpdateRow users ?e [(''name'', VStr ''q'')] (makeContext app) (MemoryAdapter app)
     = (Inr [(''id'', VNum 1), (''name'', VStr ''q''), (''updatedAt'', VNum 101)], MemoryAdapter app)"
    by (simp add: example_defs runtime_defs)
  have r2: "normalizeUpdateRow users ?e [(''updatedAt'', VNum 555)] (makeContext app) (MemoryAdapter app)
     = (Inr [(''id'', VNum 1), (''name'', VStr ''x''), (''updatedAt'', VNum 555)], MemoryAdapter app)"
    by (simp add: example_defs runtime_defs)
  have r3: "normalizeUpdateRow users ?e [(''updatedAt'', VUndefined)] (makeContext app) (MemoryAdapter app)
     = (Inr [(''id'', VNum 1), (''name'', VStr ''x''), (''updatedAt'', VUndefined)], MemoryAdapter app)"
    by (simp add: example_defs runtime_defs)
  have p1: "distinct (map fst [(''name'', VStr ''q'')])" by simp
  have p2: "distinct (map fst [(''updatedAt'', VNum 555)])" by simp
  have p3: "distinct (map fst [(''updatedAt'', VUndefined)])" by simp
  note t1 = onUpdate_runs_unless_patched [OF r1 d p1 c]
  note t2 = onUpdate_runs_unless_patched [OF r2 d p2 c]
  note t3 = onUpdate_runs_unless_patched [OF r3 d p3 c]
  have "obj_get [(''id'', VNum 1), (''name'', VStr ''q''), (''updatedAt'', VNum 101)] ''updatedAt''
          = plus_one (VNum 100)"
    using t1 f n by (simp add: hasOwnProperty_def obj_get_def)
  moreover have "obj_get [(''id'', VNum 1), (''name'', VStr ''x''), (''updatedAt'', VNum 555)] ''updatedAt''
          = VNum 555"
    using t2 f n by (simp add: hasOwnProperty_def obj_get_def)
  moreover have "obj_get [(''id'', VNum 1), (''name'', VStr ''x''), (''updatedAt'', VUndefined)] ''updatedAt''
          = VUndefined"
    using t3 f n by (simp add: hasOwnProperty_def obj_get_def)
  ultimately show ?thesis using r1 r2 r3 by simp
qed


end
